theory Spec2Isabelle
  imports Complex_Main
begin

section \<open>JavaScript numbers and the two string-to-number conversions\<close>

text \<open>
  The seat checker reads the text of a status element, splits it at \<open>/\<close> and converts
  the fields to numbers: with \<^verbatim>\<open>Number\<close> in \<^verbatim>\<open>pollOnce\<close> (versions 2.0 and 2.1) and
  with \<^verbatim>\<open>parseInt\<close> in the older \<^verbatim>\<open>searchCourses\<close>.

  A JavaScript number is modelled by its value: \<open>NaN\<close>, the two infinities, or a
  finite value kept as an exact rational. Rounding of a decimal literal to the nearest
  binary64 value is not modelled (it only shows for fields of more than 15 significant
  digits or with extreme exponents), and \<open>-0\<close> is not told apart from \<open>0\<close>; the
  code only subtracts two such values and compares the difference with zero.
  A string is a list of code units below \<open>U+0100\<close>.
\<close>

datatype jsnum = NaN | Fin rat | PosInf | NegInf

text \<open>\<^verbatim>\<open>a - b\<close> on numbers.\<close>

fun js_sub :: "jsnum \<Rightarrow> jsnum \<Rightarrow> jsnum" where
  "js_sub NaN _ = NaN"
| "js_sub _ NaN = NaN"
| "js_sub (Fin a) (Fin b) = Fin (a - b)"
| "js_sub (Fin _) PosInf = NegInf"
| "js_sub (Fin _) NegInf = PosInf"
| "js_sub PosInf PosInf = NaN"
| "js_sub PosInf _ = PosInf"
| "js_sub NegInf NegInf = NaN"
| "js_sub NegInf _ = NegInf"

text \<open>\<^verbatim>\<open>a > 0\<close> on numbers: false for \<open>NaN\<close>.\<close>

fun js_pos :: "jsnum \<Rightarrow> bool" where
  "js_pos NaN = False"
| "js_pos (Fin a) = (0 < a)"
| "js_pos PosInf = True"
| "js_pos NegInf = False"

text \<open>The global \<^verbatim>\<open>isNaN\<close> on a number.\<close>

fun isNaN :: "jsnum \<Rightarrow> bool" where
  "isNaN NaN = True"
| "isNaN _ = False"

text \<open>Truthiness of a number, as \<^verbatim>\<open>||\<close> and \<^verbatim>\<open>if\<close> test it: \<open>NaN\<close> and zero are falsy.\<close>

fun js_truthy :: "jsnum \<Rightarrow> bool" where
  "js_truthy NaN = False"
| "js_truthy (Fin a) = (a \<noteq> 0)"
| "js_truthy _ = True"

fun js_neg :: "jsnum \<Rightarrow> jsnum" where
  "js_neg NaN = NaN"
| "js_neg (Fin a) = Fin (- a)"
| "js_neg PosInf = NegInf"
| "js_neg NegInf = PosInf"

subsection \<open>Digits and white space\<close>

text \<open>The value of a code unit as a digit of some radix up to 36, as \<^verbatim>\<open>parseInt\<close> reads it.\<close>

definition digit_value :: "char \<Rightarrow> nat option" where
  "digit_value c =
     (let n = (of_char c :: nat)
      in if 48 \<le> n \<and> n \<le> 57 then Some (n - 48)
         else if 97 \<le> n \<and> n \<le> 122 then Some (n - 87)
         else if 65 \<le> n \<and> n \<le> 90 then Some (n - 55)
         else None)"

definition is_radix_digit :: "nat \<Rightarrow> char \<Rightarrow> bool" where
  "is_radix_digit R c = (case digit_value c of Some v \<Rightarrow> v < R | None \<Rightarrow> False)"

text \<open>The mathematical integer written by a string of radix-\<open>R\<close> digits.\<close>

definition radix_value :: "nat \<Rightarrow> string \<Rightarrow> nat" where
  "radix_value R ds =
     foldl (\<lambda>n c. case digit_value c of Some v \<Rightarrow> n * R + v | None \<Rightarrow> n * R) 0 ds"

text \<open>
  White space and line terminators below \<open>U+0100\<close>: TAB, LF, VT, FF, CR, SP, NBSP.
\<close>

definition is_ws :: "char \<Rightarrow> bool" where
  "is_ws c = ((of_char c :: nat) \<in> {9, 10, 11, 12, 13, 32, 160})"

definition trim_start :: "string \<Rightarrow> string" where
  "trim_start s = dropWhile is_ws s"

definition trim :: "string \<Rightarrow> string" where
  "trim s = rev (dropWhile is_ws (rev (dropWhile is_ws s)))"

subsection \<open>\<^verbatim>\<open>Number(string)\<close>\<close>

text \<open>The exponent's \<open>SignedInteger\<close>: an optional sign and at least one decimal digit.\<close>

definition decimal_digits :: "string \<Rightarrow> nat option" where
  "decimal_digits s =
     (if s \<noteq> [] \<and> list_all (is_radix_digit 10) s then Some (radix_value 10 s) else None)"

definition signed_integer :: "string \<Rightarrow> int option" where
  "signed_integer s =
     (case s of
        [] \<Rightarrow> None
      | c # r \<Rightarrow>
          if c = CHR ''+'' then map_option int (decimal_digits r)
          else if c = CHR ''-'' then map_option (\<lambda>n. - int n) (decimal_digits r)
          else map_option int (decimal_digits s))"

text \<open>\<open>m \<times> 10\<^sup>k\<close> for an integer exponent \<open>k\<close>.\<close>

definition scale10 :: "rat \<Rightarrow> int \<Rightarrow> rat" where
  "scale10 m k = (if 0 \<le> k then m * 10 ^ nat k else m / 10 ^ nat (- k))"

text \<open>
  \<open>StrUnsignedDecimalLiteral\<close>: \<open>Infinity\<close>, or digits with an optional fraction
  and an optional exponent, with a digit on at least one side of the point. Anything
  else converts to \<open>NaN\<close>.
\<close>

definition str_unsigned_decimal :: "string \<Rightarrow> jsnum" where
  "str_unsigned_decimal s =
     (if s = ''Infinity'' then PosInf
      else
        let ip = takeWhile (is_radix_digit 10) s;
            r1 = dropWhile (is_radix_digit 10) s;
            has_dot = (case r1 of [] \<Rightarrow> False | c # _ \<Rightarrow> c = CHR ''.'');
            fp = (if has_dot then takeWhile (is_radix_digit 10) (tl r1) else []);
            r2 = (if has_dot then dropWhile (is_radix_digit 10) (tl r1) else r1);
            m = rat_of_nat (radix_value 10 (ip @ fp)) / 10 ^ length fp
        in if ip = [] \<and> fp = [] then NaN
           else
             (case r2 of
                [] \<Rightarrow> Fin m
              | c # ex \<Rightarrow>
                  if c = CHR ''e'' \<or> c = CHR ''E''
                  then (case signed_integer ex of
                          None \<Rightarrow> NaN
                        | Some k \<Rightarrow> Fin (scale10 m k))
                  else NaN))"

definition str_decimal :: "string \<Rightarrow> jsnum" where
  "str_decimal s =
     (case s of
        [] \<Rightarrow> NaN
      | c # r \<Rightarrow>
          if c = CHR ''+'' then str_unsigned_decimal r
          else if c = CHR ''-'' then js_neg (str_unsigned_decimal r)
          else str_unsigned_decimal s)"

text \<open>
  \<open>NonDecimalIntegerLiteral\<close>: \<open>0x\<close>, \<open>0o\<close> or \<open>0b\<close> (either case) and at least one
  digit of that radix, with no sign. \<open>None\<close> when the string has no such prefix.
\<close>

definition non_decimal :: "string \<Rightarrow> jsnum option" where
  "non_decimal s =
     (case s of
        c0 # c1 # ds \<Rightarrow>
          (let lit = (\<lambda>R. if ds \<noteq> [] \<and> list_all (is_radix_digit R) ds
                          then Fin (rat_of_nat (radix_value R ds)) else NaN)
           in if c0 \<noteq> CHR ''0'' then None
              else if c1 = CHR ''x'' \<or> c1 = CHR ''X'' then Some (lit 16)
              else if c1 = CHR ''o'' \<or> c1 = CHR ''O'' then Some (lit 8)
              else if c1 = CHR ''b'' \<or> c1 = CHR ''B'' then Some (lit 2)
              else None)
      | _ \<Rightarrow> None)"

text \<open>
  \<^verbatim>\<open>Number(s)\<close> for a string \<open>s\<close>: white space is trimmed on both sides, the empty
  string is \<open>0\<close>, and a string that is not a numeric literal as a whole is \<open>NaN\<close>.
\<close>

definition Number :: "string \<Rightarrow> jsnum" where
  "Number s =
     (let t = trim s
      in if t = [] then Fin 0
         else (case non_decimal t of Some v \<Rightarrow> v | None \<Rightarrow> str_decimal t))"

subsection \<open>\<^verbatim>\<open>parseInt(string)\<close>, no radix given\<close>

text \<open>
  Leading white space is skipped, a sign is read, a \<open>0x\<close> prefix selects radix 16
  (radix 10 otherwise), and the longest prefix of digits is the value; what follows
  the digits is ignored. No digit at all gives \<open>NaN\<close>.
\<close>

definition parseInt :: "string \<Rightarrow> jsnum" where
  "parseInt s =
     (let S = trim_start s;
          neg = (case S of [] \<Rightarrow> False | c # _ \<Rightarrow> c = CHR ''-'');
          S1 = (case S of [] \<Rightarrow> [] | c # r \<Rightarrow> if c = CHR ''+'' \<or> c = CHR ''-'' then r else S);
          hex = (case S1 of c0 # c1 # _ \<Rightarrow> c0 = CHR ''0'' \<and> (c1 = CHR ''x'' \<or> c1 = CHR ''X'')
                 | _ \<Rightarrow> False);
          R = (if hex then 16 else 10);
          S2 = (if hex then drop 2 S1 else S1);
          Z = takeWhile (is_radix_digit R) S2
      in if Z = [] then NaN
         else Fin (rat_of_int ((if neg then - 1 else 1) * int (radix_value R Z))))"

subsection \<open>\<^verbatim>\<open>String.prototype.split\<close> with a one-character separator\<close>

fun split_on :: "char \<Rightarrow> string \<Rightarrow> string list" where
  "split_on c [] = [[]]"
| "split_on c (x # xs) =
     (if x = c then [] # split_on c xs
      else (case split_on c xs of
              [] \<Rightarrow> [[x]]
            | y # ys \<Rightarrow> (x # y) # ys))"

text \<open>
  Array destructuring \<^verbatim>\<open>const [current, max] = xs\<close>: an element the array does not
  have is \<^verbatim>\<open>undefined\<close>, here \<open>None\<close>.
\<close>

definition destructure2 :: "'a list \<Rightarrow> 'a option \<times> 'a option" where
  "destructure2 xs =
     (case xs of
        [] \<Rightarrow> (None, None)
      | [a] \<Rightarrow> (Some a, None)
      | a # b # _ \<Rightarrow> (Some a, Some b))"

text \<open>\<open>ToNumber\<close> of a value that is a number or \<^verbatim>\<open>undefined\<close>: the latter is \<open>NaN\<close>.\<close>

fun to_number :: "jsnum option \<Rightarrow> jsnum" where
  "to_number None = NaN"
| "to_number (Some n) = n"


section \<open>The course registry: class \<^verbatim>\<open>CourseMonitor\<close>\<close>

text \<open>
  A JavaScript \<^verbatim>\<open>Map\<close> keeps its keys in insertion order and holds each key once:
  the registry is an association list in that order. \<^verbatim>\<open>Map.prototype.set\<close> on a key
  that is present replaces the value where the key stands; on a new key it appends.
\<close>

fun map_set :: "'k \<Rightarrow> 'v \<Rightarrow> ('k \<times> 'v) list \<Rightarrow> ('k \<times> 'v) list" where
  "map_set k v [] = [(k, v)]"
| "map_set k v (p # m) = (if fst p = k then (k, v) # m else p # map_set k v m)"

definition map_delete :: "'k \<Rightarrow> ('k \<times> 'v) list \<Rightarrow> ('k \<times> 'v) list" where
  "map_delete k m = filter (\<lambda>p. fst p \<noteq> k) m"

text \<open>
  The value stored for a CRN is the empty object \<^verbatim>\<open>{}\<close> in version 2.1 (type
  \<open>unit\<close>) and \<^verbatim>\<open>{ notified: false }\<close> in version 2.0 (\<open>course\<close>).
\<close>

record course =
  notified :: bool

record 'c monitor =
  courses :: "(string \<times> 'c) list"
  confirmationSent :: bool

definition add :: "string \<Rightarrow> unit monitor \<Rightarrow> unit monitor" where
  "add crn mon = mon\<lparr>courses := map_set crn () (courses mon)\<rparr>"

definition add_v20 :: "string \<Rightarrow> course monitor \<Rightarrow> course monitor" where
  "add_v20 crn mon = mon\<lparr>courses := map_set crn \<lparr>notified = False\<rparr> (courses mon)\<rparr>"

definition delete :: "string \<Rightarrow> 'c monitor \<Rightarrow> 'c monitor" where
  "delete crn mon = mon\<lparr>courses := map_delete crn (courses mon)\<rparr>"

definition all :: "'c monitor \<Rightarrow> string list" where
  "all mon = map fst (courses mon)"

definition size_m :: "'c monitor \<Rightarrow> nat" where
  "size_m mon = length (courses mon)"

section \<open>The environment, the process state and what a run does\<close>

text \<open>
  Everything outside the process is an oracle of the environment: the value of
  \<^verbatim>\<open>SEAT_CHECK_INTERVAL\<close>, whether the \<open>k\<close>-th DNS lookup, the \<open>k\<close>-th
  \<^verbatim>\<open>sendMail\<close> and the \<open>k\<close>-th \<^verbatim>\<open>page.goto\<close> resolve or reject, whether
  \<^verbatim>\<open>puppeteer.launch\<close> resolves (\<open>launch_ok\<close>) and whether \<^verbatim>\<open>newPage\<close> and the two page
  settings after it resolve (\<open>newPage_ok\<close>), and, for each poll cycle, whether each page
  operation resolves and which text the status element of a CRN shows (the value of
  \<^verbatim>\<open>el.innerText.trim()\<close>). A page operation is run at most once per cycle and CRN, so
  an oracle indexed by cycle and operation is any behaviour of the page.

  The functions follow version 2.1 of \<^verbatim>\<open>seat-finder.js\<close>, the latest revision.
  Closing the browser is taken to resolve. The handlers for \<^verbatim>\<open>SIGINT\<close> and \<^verbatim>\<open>SIGTERM\<close>
  interrupt a run from outside and are not part of the model.
\<close>

datatype page_op =
    Wait_termFilter
  | Select_termFilter string
  | Wait_ms_choice
  | Click_ms_choice
  | Eval_oxford
  | Click_body
  | Click_advancedLink
  | Wait_crnNumber string
  | Clear_crnNumber string
  | Type_crnNumber string
  | Click_courseSearch string
  | Wait_statusMessage string
  | Read_statusMessage string

record env =
  SEAT_CHECK_INTERVAL :: "string option"
  dns_ok :: "nat \<Rightarrow> bool"
  mail_ok :: "nat \<Rightarrow> bool"
  launch_ok :: bool
  newPage_ok :: bool
  goto_ok :: "nat \<Rightarrow> bool"
  page_ok :: "nat \<Rightarrow> page_op \<Rightarrow> bool"
  status_text :: "nat \<Rightarrow> string \<Rightarrow> string"

datatype err =
    Mail_error
  | Page_error page_op
  | Nav_error
  | Session_error
  | Not_connected
  | Undefined

text \<open>The two kinds of message the program sends, with the values its text is built from.\<close>

datatype mail =
    Confirmation "string list" jsnum
  | Seat_available string jsnum jsnum

datatype log =
    Log_notified string
  | Log_status string "jsnum option" "jsnum option"
  | Log_fetch_failed string err
  | Log_offline
  | Log_done
  | Log_fatal err

text \<open>
  The observable events of a run, in order: every \<^verbatim>\<open>sendMail\<close> call with its outcome,
  every \<^verbatim>\<open>sleep\<close>, every \<^verbatim>\<open>page.goto\<close> with its outcome, every console line, closing
  the browser and leaving the process.
\<close>

datatype event =
    Mail mail bool
  | Sleep jsnum
  | Goto bool
  | Log log
  | Browser_close
  | Exit nat

text \<open>
  The module-level variables \<^verbatim>\<open>monitor\<close>, \<^verbatim>\<open>termCode\<close> and \<^verbatim>\<open>browser\<close> (here: whether it
  holds a launched browser), the number of oracle calls made so far, and the events so far.
\<close>

record state =
  monitor :: "unit monitor"
  termCode :: string
  browser :: bool
  lookups :: nat
  mails :: nat
  gotos :: nat
  cycles :: nat
  trace :: "event list"

text \<open>
  \<^verbatim>\<open>CHECK_INTERVAL = Number(process.env.SEAT_CHECK_INTERVAL) || 120_000\<close>; an unset
  variable is \<^verbatim>\<open>undefined\<close>, whose number is \<open>NaN\<close>.
\<close>

definition CHECK_INTERVAL :: "env \<Rightarrow> jsnum" where
  "CHECK_INTERVAL e =
     (let n = to_number (map_option Number (SEAT_CHECK_INTERVAL e))
      in if js_truthy n then n else Fin 120000)"

definition emit :: "event \<Rightarrow> state \<Rightarrow> state" where
  "emit ev st = st\<lparr>trace := trace st @ [ev]\<rparr>"

definition sleep :: "jsnum \<Rightarrow> state \<Rightarrow> state" where
  "sleep ms st = emit (Sleep ms) st"

text \<open>\<^verbatim>\<open>checkMiamiConnection\<close>: never throws, a failed lookup is \<^verbatim>\<open>false\<close>.\<close>

definition checkMiamiConnection :: "env \<Rightarrow> state \<Rightarrow> bool \<times> state" where
  "checkMiamiConnection e st = (dns_ok e (lookups st), st\<lparr>lookups := lookups st + 1\<rparr>)"

text \<open>
  A call that returns nothing has the result \<open>Inr ()\<close>; one that throws has \<open>Inl\<close> of
  the error. The state it leaves is returned in both cases.
\<close>

definition sendMail :: "env \<Rightarrow> mail \<Rightarrow> state \<Rightarrow> (err + unit) \<times> state" where
  "sendMail e m st =
     (let ok = mail_ok e (mails st)
      in (if ok then Inr () else Inl Mail_error,
          emit (Mail m ok) (st\<lparr>mails := mails st + 1\<rparr>)))"

text \<open>Page operations awaited one after the other in cycle \<open>c\<close>: the first that rejects throws.\<close>

fun page_seq :: "env \<Rightarrow> nat \<Rightarrow> page_op list \<Rightarrow> err option" where
  "page_seq e c [] = None"
| "page_seq e c (p # ps) = (if page_ok e c p then page_seq e c ps else Some (Page_error p))"

definition goto :: "env \<Rightarrow> state \<Rightarrow> (err + unit) \<times> state" where
  "goto e st =
     (let ok = goto_ok e (gotos st)
      in (if ok then Inr () else Inl Nav_error,
          emit (Goto ok) (st\<lparr>gotos := gotos st + 1\<rparr>)))"

subsection \<open>\<^verbatim>\<open>withRetry\<close>\<close>

text \<open>
  The \<^verbatim>\<open>for\<close> loop of \<^verbatim>\<open>withRetry\<close> from index \<open>i\<close>, with \<open>err\<close> the last error caught
  (\<^verbatim>\<open>undefined\<close> before the first). Inside the loop \<open>i < attempts\<close>, so \<open>attempts - 1\<close>
  is the same on natural numbers as in the source.
\<close>

function withRetry_loop ::
  "(state \<Rightarrow> (err + 'a) \<times> state) \<Rightarrow> nat \<Rightarrow> jsnum \<Rightarrow> nat \<Rightarrow> err \<Rightarrow> state \<Rightarrow> (err + 'a) \<times> state"
where
  "withRetry_loop fn attempts delay i er st =
     (if i < attempts
      then (case fn st of
              (Inr v, st1) \<Rightarrow> (Inr v, st1)
            | (Inl x, st1) \<Rightarrow>
                withRetry_loop fn attempts delay (i + 1) x
                  (if i < attempts - 1 then sleep delay st1 else st1))
      else (Inl er, st))"
  by pat_completeness auto
termination
  by (relation "measure (\<lambda>(fn, attempts, delay, i, er, st). attempts - i)") auto

declare withRetry_loop.simps [simp del]

definition withRetry ::
  "(state \<Rightarrow> (err + 'a) \<times> state) \<Rightarrow> nat \<Rightarrow> jsnum \<Rightarrow> state \<Rightarrow> (err + 'a) \<times> state"
where
  "withRetry fn attempts delay st = withRetry_loop fn attempts delay 0 Undefined st"


subsection \<open>\<^verbatim>\<open>pollOnce\<close>: one poll cycle\<close>

text \<open>
  \<^verbatim>\<open>const [current, max] = status.split('/').map(Number)\<close> and the test
  \<^verbatim>\<open>max - current > 0\<close> of version 2.1 (and 2.0).
\<close>

definition parse_status :: "string \<Rightarrow> jsnum option \<times> jsnum option" where
  "parse_status status = destructure2 (map Number (split_on CHR ''/'' status))"

definition seat_open :: "jsnum option \<times> jsnum option \<Rightarrow> bool" where
  "seat_open cm = js_pos (js_sub (to_number (snd cm)) (to_number (fst cm)))"

text \<open>
  The \<^verbatim>\<open>try\<close> block for one CRN in cycle \<open>c\<close>, with its \<^verbatim>\<open>catch\<close>: whatever is thrown
  inside (by the wait, the read or \<^verbatim>\<open>sendMail\<close>) is logged and the block ends normally.
\<close>

definition read_status :: "env \<Rightarrow> nat \<Rightarrow> string \<Rightarrow> state \<Rightarrow> state" where
  "read_status e c crn st =
     (case page_seq e c [Wait_statusMessage crn, Read_statusMessage crn] of
        Some x \<Rightarrow> emit (Log (Log_fetch_failed crn x)) st
      | None \<Rightarrow>
          (let cm = parse_status (status_text e c crn)
           in if seat_open cm
              then (case sendMail e
                           (Seat_available crn (to_number (fst cm)) (to_number (snd cm))) st of
                      (Inl x, st1) \<Rightarrow> emit (Log (Log_fetch_failed crn x)) st1
                    | (Inr _, st1) \<Rightarrow>
                        (let st2 = emit (Log (Log_notified crn)) st1
                         in st2\<lparr>monitor := delete crn (monitor st2)\<rparr>))
              else emit (Log (Log_status crn (fst cm) (snd cm))) st))"

text \<open>
  The body of the \<^verbatim>\<open>for\<close> loop for one CRN: the four page operations before the
  \<^verbatim>\<open>try\<close> are not guarded, so one of them rejecting leaves \<^verbatim>\<open>pollOnce\<close>.
\<close>

definition check_crn :: "env \<Rightarrow> nat \<Rightarrow> string \<Rightarrow> state \<Rightarrow> (err + unit) \<times> state" where
  "check_crn e c crn st =
     (case page_seq e c
             [Wait_crnNumber crn, Clear_crnNumber crn, Type_crnNumber crn,
              Click_courseSearch crn] of
        Some x \<Rightarrow> (Inl x, st)
      | None \<Rightarrow> (Inr (), read_status e c crn st))"

text \<open>The loop runs over \<^verbatim>\<open>monitor.all\<close>, an array of the keys made when the loop starts.\<close>

fun poll_crns :: "env \<Rightarrow> nat \<Rightarrow> string list \<Rightarrow> state \<Rightarrow> (err + unit) \<times> state" where
  "poll_crns e c [] st = (Inr (), st)"
| "poll_crns e c (crn # crns) st =
     (case check_crn e c crn st of
        (Inl x, st1) \<Rightarrow> (Inl x, st1)
      | (Inr _, st1) \<Rightarrow> poll_crns e c crns st1)"

definition pollOnce :: "env \<Rightarrow> state \<Rightarrow> (err + unit) \<times> state" where
  "pollOnce e st =
     (let c = cycles st;
          st0 = st\<lparr>cycles := c + 1\<rparr>
      in case page_seq e c
                [Wait_termFilter, Select_termFilter (termCode st0), Wait_ms_choice,
                 Click_ms_choice] of
           Some x \<Rightarrow> (Inl x, st0)
         | None \<Rightarrow>
             (let st1 = sleep (Fin 500) st0
              in case page_seq e c [Eval_oxford, Click_body, Click_advancedLink] of
                   Some x \<Rightarrow> (Inl x, st1)
                 | None \<Rightarrow> poll_crns e c (all (monitor st1)) st1))"

subsection \<open>\<^verbatim>\<open>seatFinder\<close>: the monitor loop\<close>

text \<open>
  One pass through the body of \<^verbatim>\<open>while (monitor.size)\<close>. \<^verbatim>\<open>continue\<close> and the end of the
  body both return \<open>Inr ()\<close>; nothing in the body catches what \<^verbatim>\<open>withRetry\<close> or
  \<^verbatim>\<open>pollOnce\<close> throws.
\<close>

definition loop_body :: "env \<Rightarrow> state \<Rightarrow> (err + unit) \<times> state" where
  "loop_body e st =
     (case checkMiamiConnection e st of
        (False, st1) \<Rightarrow> (Inr (), sleep (Fin 60000) (emit (Log Log_offline) st1))
      | (True, st1) \<Rightarrow>
          (case withRetry (goto e) 3 (Fin 2000) st1 of
             (Inl x, st2) \<Rightarrow> (Inl x, st2)
           | (Inr _, st2) \<Rightarrow>
               (case pollOnce e st2 of
                  (Inl x, st3) \<Rightarrow> (Inl x, st3)
                | (Inr _, st3) \<Rightarrow>
                    (Inr (),
                     if size_m (monitor st3) \<noteq> 0 then sleep (CHECK_INTERVAL e) st3
                     else st3))))"

text \<open>
  The loop can run for ever (the network may stay away, seats may never open), so it is
  run for at most \<open>n\<close> passes: \<open>Running\<close> is the loop still going after \<open>n\<close> passes, with
  the state reached.
\<close>

datatype outcome = Running | Returned | Thrown err | Exited nat

fun seatFinder_loop :: "nat \<Rightarrow> env \<Rightarrow> state \<Rightarrow> outcome \<times> state" where
  "seatFinder_loop 0 e st =
     (if size_m (monitor st) \<noteq> 0 then (Running, st) else (Returned, st))"
| "seatFinder_loop (Suc n) e st =
     (if size_m (monitor st) \<noteq> 0
      then (case loop_body e st of
              (Inl x, st1) \<Rightarrow> (Thrown x, st1)
            | (Inr _, st1) \<Rightarrow> seatFinder_loop n e st1)
      else (Returned, st))"

text \<open>
  What \<^verbatim>\<open>seatFinder\<close> does before the loop: the confirmation mail unless
  \<^verbatim>\<open>confirmationSent\<close>, then the browser and its page.
\<close>

definition seatFinder_start :: "env \<Rightarrow> state \<Rightarrow> (err + unit) \<times> state" where
  "seatFinder_start e st =
     (case (if \<not> confirmationSent (monitor st)
            then (case sendMail e (Confirmation (all (monitor st)) (CHECK_INTERVAL e)) st of
                    (Inl x, st1) \<Rightarrow> (Inl x, st1)
                  | (Inr _, st1) \<Rightarrow>
                      (Inr (), st1\<lparr>monitor := (monitor st1)\<lparr>confirmationSent := True\<rparr>\<rparr>))
            else (Inr (), st)) of
        (Inl x, st1) \<Rightarrow> (Inl x, st1)
      | (Inr _, st1) \<Rightarrow>
          if \<not> launch_ok e then (Inl Session_error, st1)
          else if \<not> newPage_ok e then (Inl Session_error, st1\<lparr>browser := True\<rparr>)
          else (Inr (), st1\<lparr>browser := True\<rparr>))"

text \<open>\<^verbatim>\<open>cleanup\<close>: close the browser if there is one, then \<^verbatim>\<open>process.exit(0)\<close>.\<close>

definition close_browser :: "state \<Rightarrow> state" where
  "close_browser st = (if browser st then emit Browser_close st else st)"

definition cleanup :: "state \<Rightarrow> outcome \<times> state" where
  "cleanup st = (Exited 0, emit (Exit 0) (close_browser st))"

text \<open>
  What follows the loop: when the loop has ended, the closing console line and
  \<^verbatim>\<open>cleanup\<close>; a loop that threw or is still going is passed on as it is.
\<close>

definition seatFinder_end :: "outcome \<times> state \<Rightarrow> outcome \<times> state" where
  "seatFinder_end r =
     (case r of
        (Returned, st) \<Rightarrow> cleanup (emit (Log Log_done) st)
      | (other, st) \<Rightarrow> (other, st))"

definition seatFinder :: "nat \<Rightarrow> env \<Rightarrow> state \<Rightarrow> outcome \<times> state" where
  "seatFinder n e st =
     (case seatFinder_start e st of
        (Inl x, st1) \<Rightarrow> (Thrown x, st1)
      | (Inr _, st1) \<Rightarrow> seatFinder_end (seatFinder_loop n e st1))"

subsection \<open>The end of the start-up code\<close>

text \<open>
  The start-up code from the last connectivity check on: the prompts before it fill
  \<^verbatim>\<open>monitor\<close> and \<^verbatim>\<open>termCode\<close> and are the initial state here. Its \<^verbatim>\<open>catch\<close> logs
  \<open>Fatal\<close>, closes the browser if there is one and leaves with code 1.
\<close>

definition main :: "nat \<Rightarrow> env \<Rightarrow> state \<Rightarrow> outcome \<times> state" where
  "main n e st =
     (case (case checkMiamiConnection e st of
              (False, st1) \<Rightarrow> (Thrown Not_connected, st1)
            | (True, st1) \<Rightarrow> seatFinder n e st1) of
        (Thrown x, st2) \<Rightarrow>
          (Exited 1, emit (Exit 1) (close_browser (emit (Log (Log_fatal x)) st2)))
      | (r, st2) \<Rightarrow> (r, st2))"

section \<open>The older \<^verbatim>\<open>searchCourses\<close>: what it decides from a status text\<close>

text \<open>
  In \<^verbatim>\<open>index.js\<close> (and version 1.0 of \<^verbatim>\<open>seat-finder.js\<close>) the status is the trimmed text
  or \<^verbatim>\<open>null\<close>; an empty text is falsy like \<^verbatim>\<open>null\<close>. The fields are read with
  \<^verbatim>\<open>parseInt\<close>, and seats are only computed when neither field is \<open>NaN\<close>
  (\<^verbatim>\<open>isNaN(undefined)\<close> is true). No exception depends on the text, in either version.
\<close>

datatype decision = Notify | Skip

definition legacy_decision :: "string option \<Rightarrow> decision" where
  "legacy_decision statusMessage =
     (case statusMessage of
        None \<Rightarrow> Skip
      | Some s \<Rightarrow>
          if s = [] then Skip
          else
            (let cm = destructure2 (map parseInt (split_on CHR ''/'' s));
                 current = to_number (fst cm);
                 mx = to_number (snd cm)
             in if \<not> isNaN current \<and> \<not> isNaN mx
                then (let availableSeats = js_sub mx current
                      in if js_pos availableSeats then Notify else Skip)
                else Skip))"

text \<open>The same choice in version 2.1: a mail is sent exactly when the test succeeds.\<close>

definition latest_decision :: "string \<Rightarrow> decision" where
  "latest_decision status = (if seat_open (parse_status status) then Notify else Skip)"

section \<open>Reading a trace\<close>

text \<open>Whether an event is a seat mail for \<open>crn\<close> that the relay accepted.\<close>

fun sent_to :: "string \<Rightarrow> event \<Rightarrow> bool" where
  "sent_to crn (Mail (Seat_available k cur mx) ok) = (ok \<and> k = crn)"
| "sent_to crn _ = False"

text \<open>Whether an event is an attempt to send the confirmation mail.\<close>

fun is_confirmation :: "event \<Rightarrow> bool" where
  "is_confirmation (Mail (Confirmation crns ms) ok) = True"
| "is_confirmation _ = False"

definition confirmations :: "event list \<Rightarrow> nat" where
  "confirmations evs = length (filter is_confirmation evs)"

text \<open>
  How a later state \<open>st'\<close> stands to an earlier state \<open>st\<close> when no CRN was removed
  without a notification: the trace has only grown, no CRN was added, and every CRN
  of \<open>st\<close> is still in the registry or has an accepted seat mail among the new events.
\<close>

definition removals_sent :: "state \<Rightarrow> state \<Rightarrow> bool" where
  "removals_sent st st' =
     (take (length (trace st)) (trace st') = trace st
      \<and> list_all (\<lambda>crn. crn \<in> set (all (monitor st))) (all (monitor st'))
      \<and> list_all (\<lambda>crn. crn \<in> set (all (monitor st'))
                       \<or> list_ex (sent_to crn) (drop (length (trace st)) (trace st')))
                  (all (monitor st)))"

section \<open>Concrete runs\<close>

text \<open>
  An environment in which every oracle succeeds, with no \<^verbatim>\<open>SEAT_CHECK_INTERVAL\<close>
  and a page that shows \<open>29/30\<close> for every CRN, and the state in which the start-up
  code leaves the prompts after the CRNs \<open>11111\<close> and \<open>22222\<close> were entered.
\<close>

definition env_ok :: env where
  "env_ok =
     \<lparr>SEAT_CHECK_INTERVAL = None, dns_ok = (\<lambda>k. True), mail_ok = (\<lambda>k. True),
      launch_ok = True, newPage_ok = True, goto_ok = (\<lambda>k. True),
      page_ok = (\<lambda>c p. True), status_text = (\<lambda>c crn. ''29/30'')\<rparr>"

definition mon_two :: "unit monitor" where
  "mon_two = add ''22222'' (add ''11111'' \<lparr>courses = [], confirmationSent = False\<rparr>)"

definition st_init :: state where
  "st_init =
     \<lparr>monitor = mon_two, termCode = ''202610'', browser = False,
      lookups = 0, mails = 0, gotos = 0, cycles = 0, trace = []\<rparr>"

text \<open>The same registry in version 2.0, where a record is \<^verbatim>\<open>{ notified: false }\<close>.\<close>

definition mon_two_v20 :: "course monitor" where
  "mon_two_v20 = add_v20 ''22222'' (add_v20 ''11111'' \<lparr>courses = [], confirmationSent = False\<rparr>)"

text \<open>
  Pages whose status text is not a pair of integers (an empty first field, a first field
  that is no number), a page that shows a full course, and environments in which the
  page cannot be loaded, the relay refuses every mail, or the network is away.
\<close>

definition env_blank_current :: env where
  "env_blank_current = env_ok\<lparr>status_text := (\<lambda>c crn. ''/30'')\<rparr>"

definition env_not_numeric :: env where
  "env_not_numeric = env_ok\<lparr>status_text := (\<lambda>c crn. ''abc/30'')\<rparr>"

definition env_full :: env where
  "env_full = env_ok\<lparr>status_text := (\<lambda>c crn. ''30/30'')\<rparr>"

definition env_nav_down :: env where
  "env_nav_down = env_ok\<lparr>goto_ok := (\<lambda>k. False)\<rparr>"

definition env_mail_down :: env where
  "env_mail_down = env_ok\<lparr>mail_ok := (\<lambda>k. False)\<rparr>"

definition env_no_network :: env where
  "env_no_network = env_ok\<lparr>dns_ok := (\<lambda>k. False)\<rparr>"

text \<open>The state after the confirmation mail and the launch of the browser.\<close>

definition st_started :: state where
  "st_started = snd (seatFinder_start env_ok st_init)"

section \<open>Properties of the registry\<close>

lemma map_set_keys: "k \<in> set (map fst m) \<Longrightarrow> map fst (map_set k v m) = map fst m"
  by (induction m) auto

lemma map_set_length: "k \<in> set (map fst m) \<Longrightarrow> length (map_set k v m) = length m"
  by (induction m) auto

lemma map_set_twice: "map_set k v (map_set k v m) = map_set k v m"
  by (induction m) auto

lemma map_set_same:
  "k \<in> set (map fst m) \<Longrightarrow> list_all (\<lambda>p. snd p = v) m \<Longrightarrow> map_set k v m = m"
  by (induction m) (auto simp: prod_eq_iff)

lemma map_set_lookup: "map_of (map_set k v m) k = Some v"
  by (induction m) auto

text \<open>
  Claim C9. Adding a CRN that the registry already holds changes nothing that can be
  observed: in version 2.1, where a record is the empty object, the registry is the same
  afterwards; in version 2.0 the keys, their order and the size are the same, the record
  of the CRN has \<open>notified = false\<close>, and the registry is the same when every record
  had \<open>notified = false\<close> (no code sets it otherwise). From any registry, adding a
  CRN twice gives what adding it once gives.
\<close>

theorem add_duplicate_idempotent:
  fixes mon mon' :: "unit monitor" and m20 m20' :: "course monitor"
  assumes "crn \<in> set (all mon)" and "crn \<in> set (all m20)"
  shows "add crn mon = mon
       \<and> all (add_v20 crn m20) = all m20
       \<and> size_m (add_v20 crn m20) = size_m m20
       \<and> map_of (courses (add_v20 crn m20)) crn = Some \<lparr>notified = False\<rparr>
       \<and> (list_all (\<lambda>p. \<not> notified (snd p)) (courses m20) \<longrightarrow> add_v20 crn m20 = m20)
       \<and> add crn (add crn mon') = add crn mon'
       \<and> add_v20 crn (add_v20 crn m20') = add_v20 crn m20'"
proof -
  have unit_vals: "list_all (\<lambda>p. snd p = ()) (courses mon)"
    by (simp add: list_all_iff)
  have a: "add crn mon = mon"
    using assms(1) map_set_same [OF _ unit_vals, of crn]
    by (simp add: add_def all_def)
  have b: "all (add_v20 crn m20) = all m20"
    using assms(2) by (simp add: add_v20_def all_def map_set_keys)
  have c: "size_m (add_v20 crn m20) = size_m m20"
    using assms(2) by (simp add: add_v20_def all_def size_m_def map_set_length)
  have d: "map_of (courses (add_v20 crn m20)) crn = Some \<lparr>notified = False\<rparr>"
    by (simp add: add_v20_def map_set_lookup)
  have e: "add_v20 crn m20 = m20" if "list_all (\<lambda>p. \<not> notified (snd p)) (courses m20)"
  proof -
    from that have "list_all (\<lambda>p. snd p = \<lparr>notified = False\<rparr>) (courses m20)"
      by (simp add: list_all_iff)
    with assms(2) show ?thesis
      by (simp add: add_v20_def all_def map_set_same)
  qed
  have f: "add crn (add crn mon') = add crn mon'"
    by (simp add: add_def map_set_twice)
  have g: "add_v20 crn (add_v20 crn m20') = add_v20 crn m20'"
    by (simp add: add_v20_def map_set_twice)
  from a b c d e f g show ?thesis by simp
qed

theorem add_duplicate_idempotent_witness:
  "''11111'' \<in> set (all mon_two) \<and> ''11111'' \<in> set (all mon_two_v20)
   \<and> list_all (\<lambda>p. \<not> notified (snd p)) (courses mon_two_v20)
   \<and> add ''11111'' mon_two = mon_two
   \<and> add_v20 ''11111'' mon_two_v20 = mon_two_v20
   \<and> all (add_v20 ''11111'' mon_two_v20) = [''11111'', ''22222'']
   \<and> size_m (add_v20 ''11111'' mon_two_v20) = 2"
proof -
  have h1: "''11111'' \<in> set (all mon_two)"
    by (simp add: mon_two_def add_def all_def)
  have h2: "''11111'' \<in> set (all mon_two_v20)"
    by (simp add: mon_two_v20_def add_v20_def all_def)
  have h3: "list_all (\<lambda>p. \<not> notified (snd p)) (courses mon_two_v20)"
    by (simp add: mon_two_v20_def add_v20_def)
  have k: "all mon_two_v20 = [''11111'', ''22222''] \<and> size_m mon_two_v20 = 2"
    by (simp add: mon_two_v20_def add_v20_def all_def size_m_def)
  from add_duplicate_idempotent [OF h1 h2] h1 h2 h3 k show ?thesis
    by simp
qed

lemma all_delete: "all (delete crn mon) = removeAll crn (all mon)"
  by (simp add: all_def delete_def map_delete_def removeAll_filter_not_eq filter_map comp_def eq_commute)

section \<open>No removal without a notification, over a whole run\<close>

lemma removals_sent_iff:
  "removals_sent st st' \<longleftrightarrow>
     (\<exists>evs. trace st' = trace st @ evs
          \<and> set (all (monitor st')) \<subseteq> set (all (monitor st))
          \<and> (\<forall>crn \<in> set (all (monitor st)).
                crn \<in> set (all (monitor st')) \<or> list_ex (sent_to crn) evs))"
proof
  assume r: "removals_sent st st'"
  then have "trace st' = trace st @ drop (length (trace st)) (trace st')"
    by (metis removals_sent_def append_take_drop_id)
  with r show "\<exists>evs. trace st' = trace st @ evs
          \<and> set (all (monitor st')) \<subseteq> set (all (monitor st))
          \<and> (\<forall>crn \<in> set (all (monitor st)).
                crn \<in> set (all (monitor st')) \<or> list_ex (sent_to crn) evs)"
    by (auto simp: removals_sent_def list_all_iff)
next
  assume "\<exists>evs. trace st' = trace st @ evs
          \<and> set (all (monitor st')) \<subseteq> set (all (monitor st))
          \<and> (\<forall>crn \<in> set (all (monitor st)).
                crn \<in> set (all (monitor st')) \<or> list_ex (sent_to crn) evs)"
  then show "removals_sent st st'"
    by (auto simp: removals_sent_def list_all_iff)
qed

lemma removals_sent_frame:
  "trace st' = trace st @ evs \<Longrightarrow> all (monitor st') = all (monitor st) \<Longrightarrow> removals_sent st st'"
  by (auto simp: removals_sent_iff)

lemma removals_sent_refl: "removals_sent st st"
  by (simp add: removals_sent_frame)

lemma removals_sent_trans:
  assumes "removals_sent a b" and "removals_sent b c"
  shows "removals_sent a c"
proof -
  from assms(1) obtain e1 where t1: "trace b = trace a @ e1"
    and s1: "set (all (monitor b)) \<subseteq> set (all (monitor a))"
    and r1: "\<forall>crn \<in> set (all (monitor a)). crn \<in> set (all (monitor b)) \<or> list_ex (sent_to crn) e1"
    unfolding removals_sent_iff by blast
  from assms(2) obtain e2 where t2: "trace c = trace b @ e2"
    and s2: "set (all (monitor c)) \<subseteq> set (all (monitor b))"
    and r2: "\<forall>crn \<in> set (all (monitor b)). crn \<in> set (all (monitor c)) \<or> list_ex (sent_to crn) e2"
    unfolding removals_sent_iff by blast
  have "trace c = trace a @ (e1 @ e2)" using t1 t2 by simp
  moreover have "set (all (monitor c)) \<subseteq> set (all (monitor a))" using s1 s2 by blast
  moreover have "\<forall>crn \<in> set (all (monitor a)).
                   crn \<in> set (all (monitor c)) \<or> list_ex (sent_to crn) (e1 @ e2)"
    using r1 r2 by (auto simp: list_ex_iff)
  ultimately show ?thesis
    unfolding removals_sent_iff by blast
qed

lemma rs_emit: "removals_sent st (emit ev st)"
  by (rule removals_sent_frame [of _ _ "[ev]"]) (simp_all add: emit_def)

lemma rs_sleep: "removals_sent st (sleep ms st)"
  by (simp add: sleep_def rs_emit)

lemma rs_read_status: "removals_sent st (read_status e c crn st)"
  by (auto simp: removals_sent_iff read_status_def sendMail_def Let_def emit_def all_delete
           split: option.splits)

lemma rs_check_crn: "removals_sent st (snd (check_crn e c crn st))"
  by (simp add: check_crn_def rs_read_status removals_sent_refl split: option.splits)

lemma rs_poll_crns: "removals_sent st (snd (poll_crns e c crns st))"
proof (induction crns arbitrary: st)
  case Nil
  show ?case by (simp add: removals_sent_refl)
next
  case (Cons crn crns)
  obtain r st1 where c1: "check_crn e c crn st = (r, st1)" by (cases "check_crn e c crn st")
  with rs_check_crn [of st e c crn] have a: "removals_sent st st1" by simp
  show ?case
  proof (cases r)
    case (Inl x)
    with c1 a show ?thesis by simp
  next
    case (Inr u)
    with c1 a Cons.IH [of st1] show ?thesis
      by (simp add: removals_sent_trans [of st st1])
  qed
qed

lemma rs_pollOnce: "removals_sent st (snd (pollOnce e st))"
proof -
  let ?st0 = "st\<lparr>cycles := cycles st + 1\<rparr>"
  have a: "removals_sent st ?st0"
    by (rule removals_sent_frame [of _ _ "[]"]) simp_all
  have b: "removals_sent ?st0 (sleep (Fin 500) ?st0)" by (rule rs_sleep)
  have c: "removals_sent st (sleep (Fin 500) ?st0)"
    by (rule removals_sent_trans [OF a b])
  have d: "removals_sent st (snd (poll_crns e (cycles st) (all (monitor (sleep (Fin 500) ?st0)))
                                     (sleep (Fin 500) ?st0)))"
    by (rule removals_sent_trans [OF c rs_poll_crns])
  show ?thesis
    using a c d by (simp add: pollOnce_def Let_def split: option.splits)
qed

lemma rs_goto: "removals_sent st (snd (goto e st))"
  by (rule removals_sent_frame [of _ _ "[Goto (goto_ok e (gotos st))]"])
     (simp_all add: goto_def Let_def emit_def)

lemma rs_withRetry_loop:
  "(\<And>s. removals_sent s (snd (fn s))) \<Longrightarrow>
   removals_sent st (snd (withRetry_loop fn a d i er st))"
proof (induction fn a d i er st rule: withRetry_loop.induct)
  case (1 fn attempts delay i er st)
  note inv = "1.prems"
  show ?case
  proof (cases "i < attempts")
    case False
    then show ?thesis
      by (subst withRetry_loop.simps) (simp add: removals_sent_refl)
  next
    case True
    obtain r st1 where f: "fn st = (r, st1)" by (cases "fn st")
    have c1: "removals_sent st st1" using inv [of st] f by simp
    show ?thesis
    proof (cases r)
      case (Inr v)
      with True f c1 show ?thesis by (subst withRetry_loop.simps) simp
    next
      case (Inl x)
      let ?s = "if i < attempts - 1 then sleep delay st1 else st1"
      have "removals_sent ?s (snd (withRetry_loop fn attempts delay (i + 1) x ?s))"
        using "1.IH" True f Inl inv by simp
      moreover have "removals_sent st1 ?s"
        by (simp add: rs_sleep removals_sent_refl)
      ultimately have "removals_sent st (snd (withRetry_loop fn attempts delay (i + 1) x ?s))"
        using c1 removals_sent_trans by blast
      with True f Inl show ?thesis
        by (subst withRetry_loop.simps) simp
    qed
  qed
qed

lemma rs_loop_body: "removals_sent st (snd (loop_body e st))"
proof (cases "dns_ok e (lookups st)")
  case False
  have "removals_sent st (st\<lparr>lookups := lookups st + 1,
                             trace := trace st @ [Log Log_offline, Sleep (Fin 60000)]\<rparr>)"
    by (rule removals_sent_frame [of _ _ "[Log Log_offline, Sleep (Fin 60000)]"]) simp_all
  with False show ?thesis
    by (simp add: loop_body_def checkMiamiConnection_def sleep_def emit_def)
next
  case True
  let ?st1 = "st\<lparr>lookups := lookups st + 1\<rparr>"
  have a: "removals_sent st ?st1"
    by (rule removals_sent_frame [of _ _ "[]"]) simp_all
  obtain r2 st2 where w: "withRetry (goto e) 3 (Fin 2000) ?st1 = (r2, st2)"
    by (cases "withRetry (goto e) 3 (Fin 2000) ?st1")
  have "removals_sent ?st1 (snd (withRetry (goto e) 3 (Fin 2000) ?st1))"
    unfolding withRetry_def by (rule rs_withRetry_loop) (rule rs_goto)
  with w a have b: "removals_sent st st2"
    using removals_sent_trans by fastforce
  obtain r3 st3 where p: "pollOnce e st2 = (r3, st3)" by (cases "pollOnce e st2")
  with rs_pollOnce [of st2 e] b have c: "removals_sent st st3"
    using removals_sent_trans by fastforce
  have d: "removals_sent st (sleep (CHECK_INTERVAL e) st3)"
    using c rs_sleep removals_sent_trans by blast
  show ?thesis
    using True w p b c d
    by (cases r2; cases r3) (simp_all add: loop_body_def checkMiamiConnection_def)
qed

lemma rs_seatFinder_loop: "removals_sent st (snd (seatFinder_loop n e st))"
proof (induction n arbitrary: st)
  case 0
  show ?case by (simp add: removals_sent_refl)
next
  case (Suc n)
  obtain r st1 where b: "loop_body e st = (r, st1)" by (cases "loop_body e st")
  with rs_loop_body [of st e] have a: "removals_sent st st1" by simp
  show ?case
  proof (cases r)
    case (Inl x)
    with a b show ?thesis by (simp add: removals_sent_refl)
  next
    case (Inr u)
    from removals_sent_trans [OF a Suc.IH [of st1]] b Inr show ?thesis
      by (simp add: removals_sent_refl)
  qed
qed

lemma rs_seatFinder_start: "removals_sent st (snd (seatFinder_start e st))"
  by (auto simp: removals_sent_iff seatFinder_start_def sendMail_def Let_def emit_def all_def)

lemma rs_close_browser: "removals_sent st (close_browser st)"
  by (simp add: close_browser_def rs_emit removals_sent_refl)

lemma rs_seatFinder_end: "removals_sent st (snd (seatFinder_end (r, st)))"
proof -
  have "removals_sent st (emit (Exit 0) (close_browser (emit (Log Log_done) st)))"
    using rs_emit rs_close_browser removals_sent_trans by blast
  then show ?thesis
    by (cases r) (simp_all add: seatFinder_end_def cleanup_def removals_sent_refl)
qed

lemma rs_seatFinder: "removals_sent st (snd (seatFinder n e st))"
proof -
  obtain r st1 where s: "seatFinder_start e st = (r, st1)" by (cases "seatFinder_start e st")
  with rs_seatFinder_start [of st e] have a: "removals_sent st st1" by simp
  obtain r2 st2 where l: "seatFinder_loop n e st1 = (r2, st2)" by (cases "seatFinder_loop n e st1")
  with rs_seatFinder_loop [of st1 n e] a have b: "removals_sent st st2"
    using removals_sent_trans by fastforce
  from removals_sent_trans [OF b rs_seatFinder_end [of st2 r2]] a s l show ?thesis
    by (cases r) (simp_all add: seatFinder_def)
qed

lemma rs_main: "removals_sent st (snd (main n e st))"
proof -
  let ?st1 = "st\<lparr>lookups := lookups st + 1\<rparr>"
  have a: "removals_sent st ?st1"
    by (rule removals_sent_frame [of _ _ "[]"]) simp_all
  have fatal: "removals_sent s (emit (Exit 1) (close_browser (emit (Log (Log_fatal x)) s)))" for s x
    using rs_emit rs_close_browser removals_sent_trans by blast
  show ?thesis
  proof (cases "dns_ok e (lookups st)")
    case False
    with removals_sent_trans [OF a fatal [of ?st1 Not_connected]] show ?thesis
      by (simp add: main_def checkMiamiConnection_def)
  next
    case True
    obtain r st2 where s: "seatFinder n e ?st1 = (r, st2)" by (cases "seatFinder n e ?st1")
    with rs_seatFinder [of ?st1 n e] a have b: "removals_sent st st2"
      using removals_sent_trans by fastforce
    from b removals_sent_trans [OF b fatal [of st2]] True s show ?thesis
      by (cases r) (simp_all add: main_def checkMiamiConnection_def)
  qed
qed

section \<open>One CRN in a poll cycle\<close>

lemma read_status_open:
  assumes "page_seq e c [Wait_statusMessage crn, Read_statusMessage crn] = None"
      and "seat_open (parse_status (status_text e c crn))"
  shows "read_status e c crn st =
           (let cm = parse_status (status_text e c crn);
                ok = mail_ok e (mails st);
                st1 = emit (Mail (Seat_available crn (to_number (fst cm)) (to_number (snd cm))) ok)
                        (st\<lparr>mails := mails st + 1\<rparr>)
            in if ok
               then (emit (Log (Log_notified crn)) st1)
                      \<lparr>monitor := delete crn (monitor st1)\<rparr>
               else emit (Log (Log_fetch_failed crn Mail_error)) st1)"
  using assms by (simp add: read_status_def sendMail_def Let_def emit_def)

lemma seat_open_29_30: "seat_open (parse_status ''29/30'')"
  by code_simp

text \<open>
  Claim C1. When the CRN is processed in a cycle (the search for it and the read of its
  status element succeed) and the parsed status has \<open>max - current > 0\<close>, the notifier
  is called once, and the CRN leaves the registry exactly when that send succeeds: after
  a send that throws the registry is unchanged. Over any run, from the start-up check
  on and for any number of passes, no CRN leaves the registry without an accepted seat
  mail for it.
\<close>

theorem notify_then_remove_iff_sent:
  assumes search: "page_seq e c [Wait_crnNumber crn, Clear_crnNumber crn, Type_crnNumber crn,
                                 Click_courseSearch crn] = None"
      and readable: "page_seq e c [Wait_statusMessage crn, Read_statusMessage crn] = None"
      and seats: "seat_open (parse_status (status_text e c crn))"
      and present: "crn \<in> set (all (monitor st))"
  shows "fst (check_crn e c crn st) = Inr ()
       \<and> trace (snd (check_crn e c crn st)) =
           trace st @
           [Mail (Seat_available crn
                    (to_number (fst (parse_status (status_text e c crn))))
                    (to_number (snd (parse_status (status_text e c crn)))))
                 (mail_ok e (mails st)),
            Log (if mail_ok e (mails st) then Log_notified crn
                 else Log_fetch_failed crn Mail_error)]
       \<and> mails (snd (check_crn e c crn st)) = mails st + 1
       \<and> (crn \<notin> set (all (monitor (snd (check_crn e c crn st)))) \<longleftrightarrow> mail_ok e (mails st))
       \<and> all (monitor (snd (check_crn e c crn st))) =
           (if mail_ok e (mails st) then removeAll crn (all (monitor st))
            else all (monitor st))
       \<and> removals_sent st0 (snd (main n e0 st0))"
proof -
  have step: "check_crn e c crn st = (Inr (), read_status e c crn st)"
    using search by (simp add: check_crn_def)
  have run: "removals_sent st0 (snd (main n e0 st0))"
    by (rule rs_main)
  show ?thesis
  proof (cases "mail_ok e (mails st)")
    case True
    then show ?thesis
      using present run
      by (simp add: step read_status_open [OF readable seats] Let_def emit_def all_delete)
  next
    case False
    then show ?thesis
      using present run
      by (simp add: step read_status_open [OF readable seats] Let_def emit_def)
  qed
qed

theorem notify_then_remove_iff_sent_witness:
  "page_seq env_ok 0 [Wait_crnNumber ''11111'', Clear_crnNumber ''11111'',
                      Type_crnNumber ''11111'', Click_courseSearch ''11111''] = None
   \<and> page_seq env_ok 0 [Wait_statusMessage ''11111'', Read_statusMessage ''11111''] = None
   \<and> seat_open (parse_status (status_text env_ok 0 ''11111''))
   \<and> ''11111'' \<in> set (all (monitor st_init))
   \<and> mail_ok env_ok (mails st_init)
   \<and> all (monitor (snd (check_crn env_ok 0 ''11111'' st_init))) = [''22222'']
   \<and> \<not> mail_ok (env_ok\<lparr>mail_ok := (\<lambda>k. False)\<rparr>) (mails st_init)
   \<and> all (monitor (snd (check_crn (env_ok\<lparr>mail_ok := (\<lambda>k. False)\<rparr>) 0 ''11111'' st_init)))
       = [''11111'', ''22222'']
   \<and> removals_sent st_init (snd (main 4 env_ok st_init))"
proof -
  let ?bad = "env_ok\<lparr>mail_ok := (\<lambda>k. False)\<rparr>"
  have h1: "page_seq env_ok 0 [Wait_crnNumber ''11111'', Clear_crnNumber ''11111'',
                               Type_crnNumber ''11111'', Click_courseSearch ''11111''] = None"
    and h2: "page_seq env_ok 0 [Wait_statusMessage ''11111'', Read_statusMessage ''11111''] = None"
    by (simp_all add: env_ok_def)
  have h3: "seat_open (parse_status (status_text env_ok 0 ''11111''))"
    using seat_open_29_30 by (simp add: env_ok_def)
  have b1: "page_seq ?bad 0 [Wait_crnNumber ''11111'', Clear_crnNumber ''11111'',
                               Type_crnNumber ''11111'', Click_courseSearch ''11111''] = None"
    and b2: "page_seq ?bad 0 [Wait_statusMessage ''11111'', Read_statusMessage ''11111''] = None"
    by (simp_all add: env_ok_def)
  have b3: "seat_open (parse_status (status_text ?bad 0 ''11111''))"
    using seat_open_29_30 by (simp add: env_ok_def)
  have h4: "''11111'' \<in> set (all (monitor st_init))"
    and ks: "all (monitor st_init) = [''11111'', ''22222'']"
    by (simp_all add: st_init_def mon_two_def add_def all_def)
  have ok: "mail_ok env_ok (mails st_init)" and no: "\<not> mail_ok ?bad (mails st_init)"
    by (simp_all add: env_ok_def)
  from notify_then_remove_iff_sent [OF h1 h2 h3 h4, of st_init 4 env_ok]
       notify_then_remove_iff_sent [OF b1 b2 b3 h4, of st_init 4 env_ok] h1 h2 h3 h4 ok no ks
  show ?thesis by simp
qed

text \<open>
  The choice called \<open>latest_decision\<close> is the one \<^verbatim>\<open>pollOnce\<close> makes: once the status
  element was read, a mail is attempted exactly when it says \<open>Notify\<close>.
\<close>

lemma read_status_decision:
  assumes "page_seq e c [Wait_statusMessage crn, Read_statusMessage crn] = None"
  shows "mails (read_status e c crn st) = mails st + 1
           \<longleftrightarrow> latest_decision (status_text e c crn) = Notify"
  using assms
  by (simp add: read_status_def latest_decision_def sendMail_def Let_def emit_def)

section \<open>Status texts that are not a pair of integers\<close>

text \<open>
  Claim C2, as the code runs. The status text \<open>/30\<close> has an empty first field:
  \<^verbatim>\<open>Number('')\<close> is \<open>0\<close>, so the test \<open>30 - 0 > 0\<close> succeeds, the seat mail is sent
  and the CRN leaves the registry. The text \<open>abc/30\<close> gives \<open>NaN\<close>; the test fails and
  the \<^verbatim>\<open>else\<close> branch logs it as a status, as it does for the full course \<open>30/30\<close>;
  the \<^verbatim>\<open>catch\<close> branch is not taken.
\<close>

theorem malformed_status_not_a_failure:
  "trace (snd (check_crn env_blank_current 0 ''11111'' st_init)) =
     [Mail (Seat_available ''11111'' (Fin 0) (Fin 30)) True, Log (Log_notified ''11111'')]
   \<and> all (monitor (snd (check_crn env_blank_current 0 ''11111'' st_init))) = [''22222'']
   \<and> trace (snd (check_crn env_not_numeric 0 ''11111'' st_init)) =
     [Log (Log_status ''11111'' (Some NaN) (Some (Fin 30)))]
   \<and> trace (snd (check_crn env_full 0 ''11111'' st_init)) =
     [Log (Log_status ''11111'' (Some (Fin 30)) (Some (Fin 30)))]"
  by code_simp

section \<open>The two conversions on well-formed fields\<close>

















text \<open>The other way round: text after the digits is ignored by \<^verbatim>\<open>parseInt\<close> only.\<close>

lemma decisions_differ_trailing_text:
  "legacy_decision (Some ''29/30 seats'') = Notify \<and> latest_decision ''29/30 seats'' = Skip"
  by code_simp

section \<open>Failures before and between poll cycles\<close>

text \<open>
  Claim C3, as the code runs. When \<^verbatim>\<open>page.goto\<close> rejects three times, \<^verbatim>\<open>withRetry\<close>
  throws the last error after two delays of 2000 ms; nothing in \<^verbatim>\<open>seatFinder\<close> catches
  it, so the start-up code logs it as fatal, closes the browser and leaves with code 1.
  No cadence sleep follows and no poll cycle was run.
\<close>

theorem navigation_exhausted_is_fatal:
  "fst (main 5 env_nav_down st_init) = Exited 1
   \<and> trace (snd (main 5 env_nav_down st_init)) =
       [Mail (Confirmation [''11111'', ''22222''] (Fin 120000)) True,
        Goto False, Sleep (Fin 2000), Goto False, Sleep (Fin 2000), Goto False,
        Log (Log_fatal Nav_error), Browser_close, Exit 1]
   \<and> cycles (snd (main 5 env_nav_down st_init)) = 0"
  by code_simp

text \<open>
  Claim C4, as stated, fails when the relay refuses the confirmation mail: the run ends
  with code 1 and no poll cycle.
\<close>

theorem confirmation_failure_counterexample:
  "fst (main 5 env_mail_down st_init) = Exited 1
   \<and> trace (snd (main 5 env_mail_down st_init)) =
       [Mail (Confirmation [''11111'', ''22222''] (Fin 120000)) False,
        Log (Log_fatal Mail_error), Exit 1]
   \<and> cycles (snd (main 5 env_mail_down st_init)) = 0"
  by code_simp

text \<open>
  Claim C4, amended. When the confirmation mail cannot be sent, \<^verbatim>\<open>seatFinder\<close> throws
  before it launches the browser: the start-up code logs the error as fatal and the
  process leaves with code 1. No page is loaded, no poll cycle is run and the registry
  is as it was.
\<close>

theorem confirmation_failure_aborts:
  assumes "dns_ok e (lookups st)"
      and "\<not> confirmationSent (monitor st)"
      and "\<not> mail_ok e (mails st)"
  shows "main n e st =
           (Exited 1,
            st\<lparr>lookups := lookups st + 1, mails := mails st + 1,
                trace := trace st
                  @ [Mail (Confirmation (all (monitor st)) (CHECK_INTERVAL e)) False,
                     Log (Log_fatal Mail_error)]
                  @ (if browser st then [Browser_close] else []) @ [Exit 1]\<rparr>)"
  using assms
  by (simp add: main_def checkMiamiConnection_def seatFinder_def seatFinder_start_def
                sendMail_def emit_def close_browser_def)

theorem confirmation_failure_aborts_witness:
  "dns_ok env_mail_down (lookups st_init)
   \<and> \<not> confirmationSent (monitor st_init)
   \<and> \<not> mail_ok env_mail_down (mails st_init)
   \<and> fst (main 5 env_mail_down st_init) = Exited 1
   \<and> cycles (snd (main 5 env_mail_down st_init)) = 0
   \<and> gotos (snd (main 5 env_mail_down st_init)) = 0"
proof -
  have h1: "dns_ok env_mail_down (lookups st_init)"
    and h3: "\<not> mail_ok env_mail_down (mails st_init)"
    by (simp_all add: env_mail_down_def env_ok_def)
  have h2: "\<not> confirmationSent (monitor st_init)"
    and z: "cycles st_init = 0" "gotos st_init = 0"
    by (simp_all add: st_init_def mon_two_def add_def)
  from confirmation_failure_aborts [OF h1 h2 h3, of 5] h1 h2 h3 z show ?thesis by simp
qed

section \<open>The monitor loop\<close>

lemma loop_body_offline:
  "\<not> dns_ok e (lookups st) \<Longrightarrow>
   loop_body e st =
     (Inr (), st\<lparr>lookups := lookups st + 1,
                 trace := trace st @ [Log Log_offline, Sleep (Fin 60000)]\<rparr>)"
  by (simp add: loop_body_def checkMiamiConnection_def sleep_def emit_def)

lemma CHECK_INTERVAL_default: "SEAT_CHECK_INTERVAL e = None \<Longrightarrow> CHECK_INTERVAL e = Fin 120000"
  by (simp add: CHECK_INTERVAL_def)

text \<open>
  Claim C5, amended. When the connectivity check fails, the pass through the loop logs
  it and sleeps 60000 ms, whatever \<^verbatim>\<open>SEAT_CHECK_INTERVAL\<close> is; with the default cadence
  of 120000 ms the cadence is the longer of the two.
\<close>

theorem offline_backoff_fixed:
  assumes "\<not> dns_ok e (lookups st)"
  shows "loop_body e st =
           (Inr (), st\<lparr>lookups := lookups st + 1,
                       trace := trace st @ [Log Log_offline, Sleep (Fin 60000)]\<rparr>)
       \<and> loop_body (e\<lparr>SEAT_CHECK_INTERVAL := v\<rparr>) st = loop_body e st
       \<and> CHECK_INTERVAL (e\<lparr>SEAT_CHECK_INTERVAL := None\<rparr>) = Fin 120000
       \<and> js_pos (js_sub (CHECK_INTERVAL (e\<lparr>SEAT_CHECK_INTERVAL := None\<rparr>)) (Fin 60000))"
  using assms by (simp add: loop_body_offline CHECK_INTERVAL_default)

theorem offline_backoff_fixed_witness:
  "\<not> dns_ok env_no_network (lookups st_init)
   \<and> trace (snd (loop_body env_no_network st_init)) = [Log Log_offline, Sleep (Fin 60000)]
   \<and> trace (snd (loop_body (env_no_network\<lparr>SEAT_CHECK_INTERVAL := Some ''1000''\<rparr>) st_init))
       = [Log Log_offline, Sleep (Fin 60000)]"
proof -
  have h: "\<not> dns_ok env_no_network (lookups st_init)"
    by (simp add: env_no_network_def env_ok_def)
  have t: "trace st_init = []" by (simp add: st_init_def)
  from offline_backoff_fixed [OF h, of "Some ''1000''"] h t show ?thesis by simp
qed

text \<open>
  Claim C5, as stated, fails with the default cadence: the back-off of 60000 ms is not
  longer than the cadence of 120000 ms.
\<close>

theorem backoff_longer_counterexample:
  "trace (snd (loop_body env_no_network st_init)) = [Log Log_offline, Sleep (Fin 60000)]
   \<and> CHECK_INTERVAL env_no_network = Fin 120000
   \<and> \<not> js_pos (js_sub (Fin 60000) (CHECK_INTERVAL env_no_network))"
  by code_simp

text \<open>
  Claim C8. While the registry is not empty and the next \<open>N\<close> connectivity checks fail,
  \<open>N\<close> passes of the loop do \<open>N\<close> lookups, each followed by the console line and the
  back-off sleep, and nothing else: the registry (keys, records, order), the number of
  poll cycles, of page loads and of mails are as before, and the loop is still running.
\<close>

theorem offline_checks_keep_registry:
  assumes "\<forall>k<N. \<not> dns_ok e (lookups st + k)" and "size_m (monitor st) \<noteq> 0"
  shows "seatFinder_loop N e st =
           (Running, st\<lparr>lookups := lookups st + N,
                        trace := trace st @ concat (replicate N [Log Log_offline, Sleep (Fin 60000)])\<rparr>)"
  using assms
proof (induction N arbitrary: st)
  case 0
  then show ?case by simp
next
  case (Suc N)
  let ?st1 = "st\<lparr>lookups := lookups st + 1,
                 trace := trace st @ [Log Log_offline, Sleep (Fin 60000)]\<rparr>"
  from Suc.prems(1) have "\<not> dns_ok e (lookups st + 0)" by blast
  then have body: "loop_body e st = (Inr (), ?st1)"
    by (simp add: loop_body_offline)
  have later: "\<forall>k<N. \<not> dns_ok e (lookups ?st1 + k)"
  proof (intro allI impI)
    fix k assume "k < N"
    then have "Suc k < Suc N" by simp
    with Suc.prems(1) have "\<not> dns_ok e (lookups st + Suc k)" by blast
    then show "\<not> dns_ok e (lookups ?st1 + k)" by simp
  qed
  have size1: "size_m (monitor ?st1) \<noteq> 0" using Suc.prems(2) by simp
  from Suc.IH [OF later size1] body Suc.prems(2) show ?case
    by simp
qed

theorem offline_checks_keep_registry_witness:
  "\<not> dns_ok env_no_network (lookups st_started)
   \<and> \<not> dns_ok env_no_network (lookups st_started + 1)
   \<and> \<not> dns_ok env_no_network (lookups st_started + 2)
   \<and> size_m (monitor st_started) \<noteq> 0
   \<and> monitor (snd (seatFinder_loop 3 env_no_network st_started)) = monitor st_started
   \<and> cycles (snd (seatFinder_loop 3 env_no_network st_started)) = cycles st_started
   \<and> fst (seatFinder_loop 3 env_no_network st_started) = Running"
proof -
  have h1: "\<forall>k<3. \<not> dns_ok env_no_network (lookups st_started + k)"
    by (simp add: env_no_network_def env_ok_def)
  have h2: "size_m (monitor st_started) \<noteq> 0"
    by code_simp
  have h3: "\<not> dns_ok env_no_network k" for k
    by (simp add: env_no_network_def env_ok_def)
  from offline_checks_keep_registry [OF h1 h2] h2 h3 show ?thesis by simp
qed

text \<open>
  Claim C6. When a poll cycle ends with an empty registry, the loop ends in the state
  the cycle left (no cadence sleep, no further lookup or cycle), and what follows is the
  closing console line, closing the browser and leaving with code 0.
\<close>

theorem registry_empty_ends_run:
  assumes running: "size_m (monitor st) \<noteq> 0"
      and online: "dns_ok e (lookups st)"
      and nav: "withRetry (goto e) 3 (Fin 2000) (st\<lparr>lookups := lookups st + 1\<rparr>) = (Inr (), st2)"
      and poll: "pollOnce e st2 = (Inr (), st3)"
      and empty: "size_m (monitor st3) = 0"
  shows "seatFinder_loop (Suc n) e st = (Returned, st3)
       \<and> seatFinder_end (seatFinder_loop (Suc n) e st) =
           (Exited 0,
            st3\<lparr>trace := trace st3 @ [Log Log_done]
                            @ (if browser st3 then [Browser_close] else []) @ [Exit 0]\<rparr>)"
proof -
  have body: "loop_body e st = (Inr (), st3)"
    using online nav poll empty
    by (simp add: loop_body_def checkMiamiConnection_def)
  have stop: "seatFinder_loop n e st3 = (Returned, st3)"
    using empty by (cases n) simp_all
  have loop: "seatFinder_loop (Suc n) e st = (Returned, st3)"
    using running body stop by simp
  have fin: "seatFinder_end (Returned, st3) =
           (Exited 0,
            st3\<lparr>trace := trace st3 @ [Log Log_done]
                            @ (if browser st3 then [Browser_close] else []) @ [Exit 0]\<rparr>)"
    by (simp add: seatFinder_end_def cleanup_def close_browser_def emit_def)
  from loop fin show ?thesis by simp
qed

theorem registry_empty_ends_run_witness:
  "size_m (monitor st_started) \<noteq> 0
   \<and> dns_ok env_ok (lookups st_started)
   \<and> size_m (monitor (snd (pollOnce env_ok
        (snd (withRetry (goto env_ok) 3 (Fin 2000) (st_started\<lparr>lookups := lookups st_started + 1\<rparr>)))))) = 0
   \<and> fst (seatFinder_end (seatFinder_loop (Suc 0) env_ok st_started)) = Exited 0
   \<and> trace (snd (seatFinder_end (seatFinder_loop (Suc 0) env_ok st_started))) =
       [Mail (Confirmation [''11111'', ''22222''] (Fin 120000)) True,
        Goto True, Sleep (Fin 500),
        Mail (Seat_available ''11111'' (Fin 29) (Fin 30)) True, Log (Log_notified ''11111''),
        Mail (Seat_available ''22222'' (Fin 29) (Fin 30)) True, Log (Log_notified ''22222''),
        Log Log_done, Browser_close, Exit 0]"
proof -
  let ?st2 = "snd (withRetry (goto env_ok) 3 (Fin 2000) (st_started\<lparr>lookups := lookups st_started + 1\<rparr>))"
  let ?st3 = "snd (pollOnce env_ok ?st2)"
  have h1: "size_m (monitor st_started) \<noteq> 0" by code_simp
  have h2: "dns_ok env_ok (lookups st_started)" by code_simp
  have "fst (withRetry (goto env_ok) 3 (Fin 2000) (st_started\<lparr>lookups := lookups st_started + 1\<rparr>)) = Inr ()"
    by code_simp
  then have h3: "withRetry (goto env_ok) 3 (Fin 2000) (st_started\<lparr>lookups := lookups st_started + 1\<rparr>) = (Inr (), ?st2)"
    by (simp add: prod_eq_iff)
  have "fst (pollOnce env_ok ?st2) = Inr ()" by code_simp
  then have h4: "pollOnce env_ok ?st2 = (Inr (), ?st3)"
    by (simp add: prod_eq_iff)
  have h5: "size_m (monitor ?st3) = 0" by code_simp
  have tr: "trace ?st3 =
       [Mail (Confirmation [''11111'', ''22222''] (Fin 120000)) True,
        Goto True, Sleep (Fin 500),
        Mail (Seat_available ''11111'' (Fin 29) (Fin 30)) True, Log (Log_notified ''11111''),
        Mail (Seat_available ''22222'' (Fin 29) (Fin 30)) True, Log (Log_notified ''22222'')]"
    by code_simp
  have br: "browser ?st3" by code_simp
  have k: "seatFinder_end (seatFinder_loop (Suc 0) env_ok st_started) =
             (Exited 0,
              ?st3\<lparr>trace := trace ?st3 @ [Log Log_done]
                             @ (if browser ?st3 then [Browser_close] else []) @ [Exit 0]\<rparr>)"
    by (rule conjunct2 [OF registry_empty_ends_run [OF h1 h2 h3 h4 h5]])
  show ?thesis
    unfolding k using h1 h2 h5 tr br by simp
qed

section \<open>The confirmation mail\<close>

lemma confirmations_emit:
  "confirmations (trace (emit ev st)) = confirmations (trace st) + (if is_confirmation ev then 1 else 0)"
  by (simp add: emit_def confirmations_def)

lemma conf_sleep: "confirmations (trace (sleep ms st)) = confirmations (trace st)"
  by (simp add: sleep_def confirmations_emit)

lemma conf_goto: "confirmations (trace (snd (goto e st))) = confirmations (trace st)"
  by (simp add: goto_def Let_def confirmations_emit)

lemma conf_withRetry_loop:
  "(\<And>s. confirmations (trace (snd (fn s))) = confirmations (trace s)) \<Longrightarrow>
   confirmations (trace (snd (withRetry_loop fn a d i er st))) = confirmations (trace st)"
proof (induction fn a d i er st rule: withRetry_loop.induct)
  case (1 fn attempts delay i er st)
  note inv = "1.prems"
  show ?case
  proof (cases "i < attempts")
    case False
    then show ?thesis by (subst withRetry_loop.simps) simp
  next
    case True
    obtain r st1 where f: "fn st = (r, st1)" by (cases "fn st")
    have c1: "confirmations (trace st1) = confirmations (trace st)"
      using inv [of st] f by simp
    show ?thesis
    proof (cases r)
      case (Inr v)
      with True f c1 show ?thesis by (subst withRetry_loop.simps) simp
    next
      case (Inl x)
      have "confirmations (trace (snd (withRetry_loop fn attempts delay (i + 1) x
                  (if i < attempts - 1 then sleep delay st1 else st1))))
            = confirmations (trace (if i < attempts - 1 then sleep delay st1 else st1))"
        using "1.IH" True f Inl inv by simp
      with True f Inl c1 show ?thesis
        by (subst withRetry_loop.simps) (simp add: conf_sleep)
    qed
  qed
qed


lemma conf_withRetry:
  "(\<And>s. confirmations (trace (snd (fn s))) = confirmations (trace s)) \<Longrightarrow>
   confirmations (trace (snd (withRetry fn a d st))) = confirmations (trace st)"
  by (simp add: withRetry_def conf_withRetry_loop)

lemma conf_read_status:
  "confirmations (trace (read_status e c crn st)) = confirmations (trace st)"
  by (simp add: read_status_def sendMail_def Let_def confirmations_emit split: option.splits)

lemma conf_check_crn:
  "confirmations (trace (snd (check_crn e c crn st))) = confirmations (trace st)"
  by (simp add: check_crn_def conf_read_status split: option.splits)

lemma conf_poll_crns:
  "confirmations (trace (snd (poll_crns e c crns st))) = confirmations (trace st)"
proof (induction crns arbitrary: st)
  case Nil
  show ?case by simp
next
  case (Cons crn crns)
  obtain r st1 where c: "check_crn e c crn st = (r, st1)" by (cases "check_crn e c crn st")
  with conf_check_crn [of e c crn st] have "confirmations (trace st1) = confirmations (trace st)"
    by simp
  with Cons.IH [of st1] c show ?case
    by (cases r) simp_all
qed

lemma conf_pollOnce:
  "confirmations (trace (snd (pollOnce e st))) = confirmations (trace st)"
  by (simp add: pollOnce_def Let_def conf_poll_crns conf_sleep split: option.splits)

lemma conf_loop_body:
  "confirmations (trace (snd (loop_body e st))) = confirmations (trace st)"
proof (cases "dns_ok e (lookups st)")
  case False
  then show ?thesis
    by (simp add: loop_body_def checkMiamiConnection_def conf_sleep confirmations_emit)
next
  case True
  let ?st1 = "st\<lparr>lookups := lookups st + 1\<rparr>"
  obtain r2 st2 where w: "withRetry (goto e) 3 (Fin 2000) ?st1 = (r2, st2)"
    by (cases "withRetry (goto e) 3 (Fin 2000) ?st1")
  have c2: "confirmations (trace st2) = confirmations (trace st)"
    using conf_withRetry [of "goto e" 3 "Fin 2000" ?st1] w by (simp add: conf_goto)
  obtain r3 st3 where p: "pollOnce e st2 = (r3, st3)" by (cases "pollOnce e st2")
  have c3: "confirmations (trace st3) = confirmations (trace st2)"
    using conf_pollOnce [of e st2] p by simp
  show ?thesis
    using True w p c2 c3
    by (cases r2; cases r3) (simp_all add: loop_body_def checkMiamiConnection_def conf_sleep)
qed

lemma conf_seatFinder_loop:
  "confirmations (trace (snd (seatFinder_loop n e st))) = confirmations (trace st)"
proof (induction n arbitrary: st)
  case 0
  show ?case by simp
next
  case (Suc n)
  obtain r st1 where b: "loop_body e st = (r, st1)" by (cases "loop_body e st")
  with conf_loop_body [of e st] have "confirmations (trace st1) = confirmations (trace st)"
    by simp
  with Suc.IH [of st1] b show ?case
    by (cases r) simp_all
qed

lemma conf_seatFinder_end:
  "confirmations (trace (snd (seatFinder_end (r, st)))) = confirmations (trace st)"
  by (cases r) (simp_all add: seatFinder_end_def cleanup_def close_browser_def confirmations_emit)

lemma conf_seatFinder_start:
  "confirmations (trace (snd (seatFinder_start e st))) =
     confirmations (trace st) + (if confirmationSent (monitor st) then 0 else 1)"
  by (simp add: seatFinder_start_def sendMail_def Let_def confirmations_emit)

lemma flag_seatFinder_start:
  "fst (seatFinder_start e st) = Inr () \<Longrightarrow> confirmationSent (monitor (snd (seatFinder_start e st)))"
  by (auto simp: seatFinder_start_def sendMail_def Let_def emit_def split: if_splits)

lemma conf_seatFinder:
  "confirmations (trace (snd (seatFinder n e st))) =
     confirmations (trace st) + (if confirmationSent (monitor st) then 0 else 1)"
proof -
  obtain r st1 where s: "seatFinder_start e st = (r, st1)" by (cases "seatFinder_start e st")
  with conf_seatFinder_start [of e st]
  have c1: "confirmations (trace st1) =
              confirmations (trace st) + (if confirmationSent (monitor st) then 0 else 1)"
    by simp
  obtain r2 st2 where l: "seatFinder_loop n e st1 = (r2, st2)" by (cases "seatFinder_loop n e st1")
  with conf_seatFinder_loop [of n e st1] have c2: "confirmations (trace st2) = confirmations (trace st1)"
    by simp
  show ?thesis
    using s l c1 c2 conf_seatFinder_end [of r2 st2]
    by (cases r) (simp_all add: seatFinder_def)
qed

lemma conf_main:
  "confirmations (trace (snd (main n e st))) =
     confirmations (trace st)
       + (if dns_ok e (lookups st) \<and> \<not> confirmationSent (monitor st) then 1 else 0)"
proof (cases "dns_ok e (lookups st)")
  case False
  then show ?thesis
    by (simp add: main_def checkMiamiConnection_def close_browser_def confirmations_emit)
next
  case True
  let ?st1 = "st\<lparr>lookups := lookups st + 1\<rparr>"
  obtain r st2 where s: "seatFinder n e ?st1 = (r, st2)" by (cases "seatFinder n e ?st1")
  with conf_seatFinder [of n e ?st1]
  have "confirmations (trace st2) =
          confirmations (trace st) + (if confirmationSent (monitor st) then 0 else 1)"
    by simp
  with True s show ?thesis
    by (cases r) (simp_all add: main_def checkMiamiConnection_def close_browser_def confirmations_emit)
qed

text \<open>
  Claim C7. A run makes at most one attempt to send the confirmation mail, however many
  passes the loop makes: the loop itself makes none, and a run that starts with
  \<^verbatim>\<open>confirmationSent\<close> set makes none at all.
\<close>

theorem confirmation_at_most_once:
  "confirmations (trace (snd (main n e st))) \<le> confirmations (trace st) + 1
   \<and> confirmations (trace (snd (seatFinder_loop n e st1))) = confirmations (trace st1)
   \<and> (confirmationSent (monitor st) \<longrightarrow>
        confirmations (trace (snd (main n e st))) = confirmations (trace st))"
  by (simp add: conf_main conf_seatFinder_loop)

theorem confirmation_at_most_once_witness:
  "confirmations (trace (snd (main 4 env_full st_init))) = 1
   \<and> cycles (snd (main 4 env_full st_init)) = 4
   \<and> confirmationSent (monitor st_started)
   \<and> confirmations (trace (snd (main 4 env_full st_started))) = confirmations (trace st_started)"
proof -
  have a: "confirmations (trace (snd (main 4 env_full st_init))) = 1"
    and b: "cycles (snd (main 4 env_full st_init)) = 4"
    and c: "confirmationSent (monitor st_started)"
    by code_simp+
  from confirmation_at_most_once [of 4 env_full st_started] a b c show ?thesis
    by simp
qed

end
